theory Spec2Isabelle
  imports Main "HOL-Library.Word"
begin

unbundle bit_operations_syntax

section \<open>Machine types\<close>

type_synonym u8 = "8 word"
type_synonym u16 = "16 word"
type_synonym u32 = "32 word"
type_synonym u64 = "64 word"

section \<open>Host side: \<^verbatim>\<open>tt_metal/impl/dispatch/command_queue.hpp\<close>\<close>

subsection \<open>Transfer types\<close>

text \<open>
  \<^verbatim>\<open>enum class TransferType : u8 { B = 0, N = 1, T0 = 2, T1 = 3, T2 = 4, CB = 5, SEM = 6 }\<close>.
  The enumeration has a fixed underlying type, so every \<^typ>\<open>u8\<close> value is a value of
  the type; the enumerators are the seven named ones.
\<close>

type_synonym TransferType = u8

definition TransferType_B :: TransferType where "TransferType_B = 0"
definition TransferType_N :: TransferType where "TransferType_N = 1"
definition TransferType_T0 :: TransferType where "TransferType_T0 = 2"
definition TransferType_T1 :: TransferType where "TransferType_T1 = 3"
definition TransferType_T2 :: TransferType where "TransferType_T2 = 4"
definition TransferType_CB :: TransferType where "TransferType_CB = 5"
definition TransferType_SEM :: TransferType where "TransferType_SEM = 6"

text \<open>\<^verbatim>\<open>TT_THROW(msg)\<close> raises an exception that carries the message.\<close>

datatype tt_exception = TT_THROW string

text \<open>
  \<^verbatim>\<open>transfer_type_to_string\<close>: a \<^verbatim>\<open>switch\<close> over the five RISC-V enumerators; the
  \<^verbatim>\<open>default\<close> branch throws.
\<close>

definition transfer_type_to_string :: "TransferType \<Rightarrow> tt_exception + string" where
  "transfer_type_to_string transfer_type =
     (if transfer_type = TransferType_B then Inr ''B''
      else if transfer_type = TransferType_N then Inr ''NC''
      else if transfer_type = TransferType_T0 then Inr ''T0''
      else if transfer_type = TransferType_T1 then Inr ''T1''
      else if transfer_type = TransferType_T2 then Inr ''T2''
      else Inl (TT_THROW ''Invalid riscv type''))"

subsection \<open>Multicast encoding\<close>

text \<open>
  \<^verbatim>\<open>NOC_MULTICAST_ENCODING(x_start, y_start, x_end, y_end)\<close> is
  \<^verbatim>\<open>(x_start << 2*B) | (y_start << 3*B) | x_end | (y_end << B)\<close> with
  \<^verbatim>\<open>B = NOC_ADDR_NODE_ID_BITS\<close>. The constant comes from \<^verbatim>\<open>noc_parameters.h\<close>,
  a header that is not among the sources, so it is the first parameter here. The result is
  stored in a \<^verbatim>\<open>u32\<close> (\<^verbatim>\<open>noc_multicast_encoding\<close> in \<^verbatim>\<open>transfer_info\<close>), so the
  arithmetic is that of 32-bit words: bits shifted beyond bit 31 are lost.
\<close>

definition NOC_MULTICAST_ENCODING :: "nat \<Rightarrow> u32 \<Rightarrow> u32 \<Rightarrow> u32 \<Rightarrow> u32 \<Rightarrow> u32" where
  "NOC_MULTICAST_ENCODING NOC_ADDR_NODE_ID_BITS x_start y_start x_end y_end =
     push_bit (2 * NOC_ADDR_NODE_ID_BITS) x_start
       OR push_bit (3 * NOC_ADDR_NODE_ID_BITS) y_start
       OR x_end
       OR push_bit NOC_ADDR_NODE_ID_BITS y_end"

text \<open>
  Reading the four fields back (not in the sources; it states what "can be recovered"
  means): field \<open>k\<close> is the \<open>B\<close> bits starting at bit \<open>k * B\<close>. The tuple is in the
  argument order of the macro.
\<close>

definition multicast_field :: "nat \<Rightarrow> nat \<Rightarrow> u32 \<Rightarrow> u32" where
  "multicast_field NOC_ADDR_NODE_ID_BITS k w =
     take_bit NOC_ADDR_NODE_ID_BITS (drop_bit (k * NOC_ADDR_NODE_ID_BITS) w)"

definition multicast_fields :: "nat \<Rightarrow> u32 \<Rightarrow> u32 \<times> u32 \<times> u32 \<times> u32" where
  "multicast_fields NOC_ADDR_NODE_ID_BITS w =
     (multicast_field NOC_ADDR_NODE_ID_BITS 2 w,
      multicast_field NOC_ADDR_NODE_ID_BITS 3 w,
      multicast_field NOC_ADDR_NODE_ID_BITS 0 w,
      multicast_field NOC_ADDR_NODE_ID_BITS 1 w)"

section \<open>Device side: \<^verbatim>\<open>tt_metal/hw/firmware/src/idle_erisc.cc\<close>\<close>

subsection \<open>Mailbox structures\<close>

text \<open>
  Modelled from the spec: the structures of \<^verbatim>\<open>dev_msgs.h\<close> (launch message, go message,
  mailbox page), a header the firmware includes and that is not among the sources. The
  fields are those of the mailbox layout (\<^verbatim>\<open>LaunchMessage\<close>, \<^verbatim>\<open>GoMessage\<close> with
  \<^verbatim>\<open>signal\<close>, \<^verbatim>\<open>master_x\<close>, \<^verbatim>\<open>master_y\<close>, \<^verbatim>\<open>dispatch_message_offset\<close>,
  \<^verbatim>\<open>Mailboxes\<close>) that the firmware reads and writes. \<^verbatim>\<open>launch_msg_t\<close> wraps
  \<^verbatim>\<open>kernel_config_msg_t\<close>; \<^verbatim>\<open>go_msg_t\<close> is four bytes; \<^verbatim>\<open>slave_sync\<close> is a union
  whose member \<^verbatim>\<open>all\<close> is the whole 32-bit word.
\<close>

record kernel_config_msg_t =
  enables :: u8
  brisc_noc_id :: u8
  cb_offset :: u16
  kernel_text_offset :: "u32 list"
  mode :: u8
  host_assigned_id :: u32

record launch_msg_t =
  kernel_config :: kernel_config_msg_t

record go_msg_t =
  dispatch_message_offset :: u8
  master_x :: u8
  master_y :: u8
  signal :: u8

record mailboxes_t =
  launch :: "launch_msg_t list"
  launch_msg_rd_ptr :: u32
  go_message :: go_msg_t
  slave_sync_all :: u32

subsection \<open>Constants, macros and helpers from headers that are not among the sources\<close>

text \<open>
  The firmware is compiled against headers (\<^verbatim>\<open>dev_msgs.h\<close>, \<^verbatim>\<open>noc_parameters.h\<close>,
  \<^verbatim>\<open>risc_common.h\<close>, \<^verbatim>\<open>firmware_common.h\<close>, \<^verbatim>\<open>circular_buffer.h\<close>) that fix the
  values below. They are parameters of the model: every definition of the firmware takes a
  record of them, under the names the source uses.
  \<^item> \<open>NOC_X\<close> and \<open>NOC_Y\<close> take the current \<^verbatim>\<open>noc_index\<close> as their first argument,
    since the macros may translate a coordinate per NOC.
  \<^item> \<open>get_cb_tiles_received_ptr\<close> and \<open>get_cb_tiles_acked_ptr\<close> give the address of a
    register for an operand.
  \<^item> \<open>firmware_config_init\<close> gives the kernel-config base it returns for a mailbox page.
  \<^item> \<open>slave_sync_set_dm1\<close> is the effect, on the word \<^verbatim>\<open>slave_sync.all\<close>, of storing a
    byte to the union member \<^verbatim>\<open>slave_sync.dm1\<close>.
\<close>

record dev_consts =
  ARCH_BLACKHOLE :: bool
  NUM_CIRCULAR_BUFFERS :: u32
  RUN_MSG_GO :: u8
  RUN_MSG_DONE :: u8
  RUN_SYNC_MSG_GO :: u8
  RUN_SYNC_MSG_ALL_SLAVES_DONE :: u32
  DISPATCH_MODE_DEV :: u8
  DISPATCH_CLASS_MASK_ETH_DM0 :: u32
  DISPATCH_CLASS_MASK_ETH_DM1 :: u32
  EthProcessorTypes_DM0 :: nat
  DISPATCH_MESSAGE_ADDR :: u32
  launch_msg_buffer_num_entries :: u32
  NCRISC_AT_CMD_BUF :: u32
  NOC_UNICAST_WRITE_VC :: u32
  NOC_XY_ADDR :: "u32 \<Rightarrow> u32 \<Rightarrow> u32 \<Rightarrow> u64"
  NOC_X :: "u8 \<Rightarrow> u8 \<Rightarrow> u32"
  NOC_Y :: "u8 \<Rightarrow> u8 \<Rightarrow> u32"
  get_cb_tiles_received_ptr :: "u32 \<Rightarrow> u32"
  get_cb_tiles_acked_ptr :: "u32 \<Rightarrow> u32"
  firmware_config_init :: "mailboxes_t \<Rightarrow> u32"
  slave_sync_set_dm1 :: "u8 \<Rightarrow> u32 \<Rightarrow> u32"

subsection \<open>Firmware state and what it does to the outside\<close>

text \<open>
  What the firmware does that another agent can see, in program order: waypoints, volatile
  reads of the two mailbox words it spins on, the store of \<^verbatim>\<open>go_message.signal\<close>, the call
  of the kernel (address called, argument passed) and the NOC atomic increment with the
  arguments of \<^verbatim>\<open>noc_fast_atomic_increment(noc, cmd_buf, addr, vc, incr, wrap, linked)\<close>.
\<close>

datatype fw_event =
    WAYPOINT string
  | Read_go_signal u8
  | Read_slave_sync u32
  | Write_go_signal u8
  | Kernel_call u32 u32
  | Noc_fast_atomic_increment u8 u32 u64 u32 u32 u32 bool

text \<open>
  The state: the mailbox page, the global \<^verbatim>\<open>noc_index\<close>, the local \<^verbatim>\<open>heartbeat\<close> of
  \<^verbatim>\<open>main\<close>, the registers behind the circular-buffer pointers (a store from addresses to
  words) and the events so far.
\<close>

record fw_state =
  mailboxes :: mailboxes_t
  noc_index :: u8
  heartbeat :: u32
  regs :: "u32 \<Rightarrow> u32"
  trace :: "fw_event list"

text \<open>
  The other agents. The dispatcher writes launch messages and the go message, the slave
  processors write \<^verbatim>\<open>slave_sync\<close>; the read pointer is written by this firmware alone.
  The firmware sees their writes when it polls: a script gives, for each poll, the write
  that lands before it.
\<close>

datatype env_write =
    No_write
  | Write_go_message go_msg_t
  | Write_launch nat launch_msg_t
  | Write_slave_sync u32

fun env_apply :: "env_write \<Rightarrow> fw_state \<Rightarrow> fw_state" where
  "env_apply No_write s = s"
| "env_apply (Write_go_message g) s = s\<lparr>mailboxes := (mailboxes s)\<lparr>go_message := g\<rparr>\<rparr>"
| "env_apply (Write_launch i m) s =
     s\<lparr>mailboxes := (mailboxes s)\<lparr>launch := (launch (mailboxes s))[i := m]\<rparr>\<rparr>"
| "env_apply (Write_slave_sync v) s = s\<lparr>mailboxes := (mailboxes s)\<lparr>slave_sync_all := v\<rparr>\<rparr>"

text \<open>
  The kernel is code the firmware jumps to: given the address called and the argument, it
  turns the mailbox page into a new one, or does not return.
\<close>

type_synonym kernel = "u32 \<Rightarrow> u32 \<Rightarrow> mailboxes_t \<Rightarrow> mailboxes_t option"

definition emit :: "fw_event \<Rightarrow> fw_state \<Rightarrow> fw_state" where
  "emit e s = s\<lparr>trace := trace s @ [e]\<rparr>"

text \<open>\<^verbatim>\<open>RISC_POST_HEARTBEAT(heartbeat)\<close>: one more post.\<close>

definition RISC_POST_HEARTBEAT :: "fw_state \<Rightarrow> fw_state" where
  "RISC_POST_HEARTBEAT s = s\<lparr>heartbeat := heartbeat s + 1\<rparr>"

text \<open>Reading \<^verbatim>\<open>mailboxes->launch[i]\<close>; the array has as many entries as the list.\<close>

definition launch_at :: "mailboxes_t \<Rightarrow> u32 \<Rightarrow> launch_msg_t option" where
  "launch_at mb i = (if unat i < length (launch mb) then Some (launch mb ! unat i) else None)"

subsection \<open>The functions of the firmware\<close>

text \<open>
  \<^verbatim>\<open>init_sync_registers\<close>: for each operand from 0 up to \<^verbatim>\<open>NUM_CIRCULAR_BUFFERS\<close>, store 0
  at the tiles-received pointer, then 0 at the tiles-acked pointer.
\<close>

definition init_sync_registers :: "dev_consts \<Rightarrow> fw_state \<Rightarrow> fw_state" where
  "init_sync_registers c s =
     s\<lparr>regs := fold (\<lambda>operand r. (r(get_cb_tiles_received_ptr c (of_nat operand) := 0))
                                   (get_cb_tiles_acked_ptr c (of_nat operand) := 0))
                    [0 ..< unat (NUM_CIRCULAR_BUFFERS c)] (regs s)\<rparr>"

text \<open>\<^verbatim>\<open>run_slave_eriscs(enables)\<close>.\<close>

definition run_slave_eriscs :: "dev_consts \<Rightarrow> u8 \<Rightarrow> fw_state \<Rightarrow> fw_state" where
  "run_slave_eriscs c en s =
     (if ucast en AND DISPATCH_CLASS_MASK_ETH_DM1 c \<noteq> 0
      then s\<lparr>mailboxes := (mailboxes s)
              \<lparr>slave_sync_all :=
                 slave_sync_set_dm1 c (RUN_SYNC_MSG_GO c) (slave_sync_all (mailboxes s))\<rparr>\<rparr>
      else s)"

text \<open>
  The loop of \<^verbatim>\<open>wait_slave_eriscs\<close>. \<open>Inl\<close>: the script has ended and the firmware is
  still in the loop. \<open>Inr\<close>: the loop was left, with the rest of the script.
\<close>

fun poll_slave_sync ::
  "dev_consts \<Rightarrow> env_write list \<Rightarrow> fw_state \<Rightarrow> fw_state + (env_write list \<times> fw_state)" where
  "poll_slave_sync c [] s = Inl s"
| "poll_slave_sync c (w # env) s =
     (let s1 = env_apply w s;
          s2 = emit (Read_slave_sync (slave_sync_all (mailboxes s1))) s1
      in if slave_sync_all (mailboxes s1) \<noteq> RUN_SYNC_MSG_ALL_SLAVES_DONE c
         then poll_slave_sync c env (RISC_POST_HEARTBEAT s2)
         else Inr (env, s2))"

definition wait_slave_eriscs ::
  "dev_consts \<Rightarrow> env_write list \<Rightarrow> fw_state \<Rightarrow> fw_state + (env_write list \<times> fw_state)" where
  "wait_slave_eriscs c env s =
     (case poll_slave_sync c env (emit (WAYPOINT ''SEW'') s) of
        Inl s' \<Rightarrow> Inl s'
      | Inr (env', s') \<Rightarrow> Inr (env', emit (WAYPOINT ''SED'') s'))"

text \<open>The loop of \<^verbatim>\<open>main\<close> that waits for \<^verbatim>\<open>go_message.signal == RUN_MSG_GO\<close>.\<close>

fun poll_go_signal ::
  "dev_consts \<Rightarrow> env_write list \<Rightarrow> fw_state \<Rightarrow> fw_state + (env_write list \<times> fw_state)" where
  "poll_go_signal c [] s = Inl s"
| "poll_go_signal c (w # env) s =
     (let s1 = env_apply w s;
          s2 = emit (Read_go_signal (signal (go_message (mailboxes s1)))) s1
      in if signal (go_message (mailboxes s1)) \<noteq> RUN_MSG_GO c
         then poll_go_signal c env (RISC_POST_HEARTBEAT s2)
         else Inr (env, s2))"

text \<open>
  The first half of the body of the loop, from reading \<^verbatim>\<open>launch_msg_rd_ptr\<close> to the return
  of the kernel. The result says where the firmware stands: an index was outside its array,
  the kernel has not returned, or the launch ran; then it carries the local
  \<^verbatim>\<open>launch_msg_rd_ptr\<close>, which the second half uses again.
\<close>

datatype launched =
    Launch_out_of_bounds fw_state
  | Kernel_running fw_state
  | Kernel_returned u32 fw_state

definition run_launch :: "dev_consts \<Rightarrow> kernel \<Rightarrow> fw_state \<Rightarrow> launched" where
  "run_launch c K s =
     (let rd = launch_msg_rd_ptr (mailboxes s) in
      case launch_at (mailboxes s) rd of
        None \<Rightarrow> Launch_out_of_bounds s
      | Some launch_msg \<Rightarrow>
          let s1 = s\<lparr>noc_index := brisc_noc_id (kernel_config launch_msg)\<rparr>;
              en = enables (kernel_config launch_msg);
              s2 = run_slave_eriscs c en s1;
              kernel_config_base = firmware_config_init c (mailboxes s2)
          in if ucast en AND DISPATCH_CLASS_MASK_ETH_DM0 c \<noteq> 0
             then
               (let s3 = emit (WAYPOINT ''R'') s2 in
                case launch_at (mailboxes s3) (launch_msg_rd_ptr (mailboxes s3)) of
                  None \<Rightarrow> Launch_out_of_bounds s3
                | Some m \<Rightarrow>
                    if EthProcessorTypes_DM0 c < length (kernel_text_offset (kernel_config m))
                    then
                      (let kernel_address =
                             kernel_config_base
                               + kernel_text_offset (kernel_config m) ! EthProcessorTypes_DM0 c;
                           s4 = emit (Kernel_call kernel_address kernel_address) s3
                       in case K kernel_address kernel_address (mailboxes s4) of
                            None \<Rightarrow> Kernel_running s4
                          | Some mb' \<Rightarrow>
                              Kernel_returned rd (emit (WAYPOINT ''D'') (s4\<lparr>mailboxes := mb'\<rparr>)))
                    else Launch_out_of_bounds s3)
             else Kernel_returned rd s2)"

text \<open>
  The address of the dispatcher's counter, as \<^verbatim>\<open>main\<close> computes \<^verbatim>\<open>dispatch_addr\<close>:
  \<^verbatim>\<open>NOC_XY_ADDR(NOC_X(go_message.master_x), NOC_Y(go_message.master_x),
  DISPATCH_MESSAGE_ADDR + go_message.dispatch_message_offset)\<close>.
\<close>

definition dispatch_addr :: "dev_consts \<Rightarrow> fw_state \<Rightarrow> u64" where
  "dispatch_addr c s =
     NOC_XY_ADDR c
       (NOC_X c (noc_index s) (master_x (go_message (mailboxes s))))
       (NOC_Y c (noc_index s) (master_x (go_message (mailboxes s))))
       (DISPATCH_MESSAGE_ADDR c + ucast (dispatch_message_offset (go_message (mailboxes s))))"

text \<open>
  The second half of the body, after \<^verbatim>\<open>wait_slave_eriscs\<close>: store \<^verbatim>\<open>RUN_MSG_DONE\<close>, and
  in \<^verbatim>\<open>DISPATCH_MODE_DEV\<close> clear \<^verbatim>\<open>enables\<close> of the launch message, increment the
  dispatcher's counter over the NOC and advance the read pointer. \<open>None\<close>: the local read
  pointer is outside the launch array.
\<close>

definition notify_dispatcher :: "dev_consts \<Rightarrow> u32 \<Rightarrow> fw_state \<Rightarrow> fw_state option" where
  "notify_dispatcher c rd s =
     (let s1 = emit (Write_go_signal (RUN_MSG_DONE c))
                 (s\<lparr>mailboxes := (mailboxes s)
                      \<lparr>go_message := (go_message (mailboxes s))\<lparr>signal := RUN_MSG_DONE c\<rparr>\<rparr>\<rparr>)
      in case launch_at (mailboxes s1) rd of
           None \<Rightarrow> None
         | Some launch_msg \<Rightarrow>
             if mode (kernel_config launch_msg) = DISPATCH_MODE_DEV c
             then
               (let s2 = s1\<lparr>mailboxes := (mailboxes s1)
                           \<lparr>launch := (launch (mailboxes s1))
                              [unat rd := launch_msg
                                 \<lparr>kernel_config := (kernel_config launch_msg)\<lparr>enables := 0\<rparr>\<rparr>]\<rparr>\<rparr>;
                    s3 = emit (Noc_fast_atomic_increment (noc_index s2) (NCRISC_AT_CMD_BUF c)
                                 (dispatch_addr c s2) (NOC_UNICAST_WRITE_VC c) 1 31 False) s2
                in Some (s3\<lparr>mailboxes := (mailboxes s3)
                           \<lparr>launch_msg_rd_ptr :=
                              (rd + 1) AND (launch_msg_buffer_num_entries c - 1)\<rparr>\<rparr>))
             else Some s1)"

text \<open>
  Where the firmware stands when a script of writes has been used up, or when it cannot go
  on: back at the head of the loop (with the rest of the script), spinning for the go
  signal, inside the kernel, spinning for the slaves, in the heartbeat loop that ends the
  body when \<^verbatim>\<open>ARCH_BLACKHOLE\<close> is not defined, or at an index outside its array.
\<close>

datatype outcome =
    Loop_head "env_write list" fw_state
  | Waiting_go fw_state
  | In_kernel fw_state
  | Waiting_slaves fw_state
  | Heartbeat_forever fw_state
  | Out_of_bounds fw_state

fun outcome_state :: "outcome \<Rightarrow> fw_state" where
  "outcome_state (Loop_head env s) = s"
| "outcome_state (Waiting_go s) = s"
| "outcome_state (In_kernel s) = s"
| "outcome_state (Waiting_slaves s) = s"
| "outcome_state (Heartbeat_forever s) = s"
| "outcome_state (Out_of_bounds s) = s"

text \<open>One pass through the body of \<^verbatim>\<open>while (1)\<close> in \<^verbatim>\<open>main\<close>.\<close>

definition dispatch_iteration ::
  "dev_consts \<Rightarrow> kernel \<Rightarrow> env_write list \<Rightarrow> fw_state \<Rightarrow> outcome" where
  "dispatch_iteration c K env s =
     (case poll_go_signal c env (emit (WAYPOINT ''GW'') (init_sync_registers c s)) of
        Inl s1 \<Rightarrow> Waiting_go s1
      | Inr (env1, s1) \<Rightarrow>
          (case run_launch c K (emit (WAYPOINT ''GD'') s1) of
             Launch_out_of_bounds s2 \<Rightarrow> Out_of_bounds s2
           | Kernel_running s2 \<Rightarrow> In_kernel s2
           | Kernel_returned rd s2 \<Rightarrow>
               (case wait_slave_eriscs c env1 s2 of
                  Inl s3 \<Rightarrow> Waiting_slaves s3
                | Inr (env2, s3) \<Rightarrow>
                    (case notify_dispatcher c rd s3 of
                       None \<Rightarrow> Out_of_bounds s3
                     | Some s4 \<Rightarrow>
                         if ARCH_BLACKHOLE c then Loop_head env2 s4
                         else Heartbeat_forever s4))))"

text \<open>The loop, for at most \<open>n\<close> passes.\<close>

primrec dispatch_loop ::
  "dev_consts \<Rightarrow> kernel \<Rightarrow> nat \<Rightarrow> env_write list \<Rightarrow> fw_state \<Rightarrow> outcome" where
  "dispatch_loop c K 0 env s = Loop_head env s"
| "dispatch_loop c K (Suc n) env s =
     (case dispatch_iteration c K env s of
        Loop_head env' s' \<Rightarrow> dispatch_loop c K n env' s'
      | out \<Rightarrow> out)"

text \<open>
  \<^verbatim>\<open>main\<close> before the loop: the stores to the mailbox page, in program order. The calls in
  between (\<^verbatim>\<open>do_crt1\<close>, \<^verbatim>\<open>risc_init\<close>, \<^verbatim>\<open>noc_init\<close>, \<^verbatim>\<open>deassert_all_reset\<close>) set up the
  core and the NOC and leave the modelled state alone. The history of events starts here.
\<close>

definition boot :: "dev_consts \<Rightarrow> fw_state \<Rightarrow> fw_state" where
  "boot c s =
     (let s1 = s\<lparr>trace := [WAYPOINT ''I''], heartbeat := 0\<rparr>;
          s2 = s1\<lparr>mailboxes := (mailboxes s1)
                    \<lparr>slave_sync_all := RUN_SYNC_MSG_ALL_SLAVES_DONE c\<rparr>\<rparr>;
          s3 = emit (Write_go_signal (RUN_MSG_DONE c))
                 (s2\<lparr>mailboxes := (mailboxes s2)
                       \<lparr>go_message := (go_message (mailboxes s2))\<lparr>signal := RUN_MSG_DONE c\<rparr>\<rparr>\<rparr>)
      in s3\<lparr>mailboxes := (mailboxes s3)\<lparr>launch_msg_rd_ptr := 0\<rparr>\<rparr>)"

definition firmware_main ::
  "dev_consts \<Rightarrow> kernel \<Rightarrow> nat \<Rightarrow> env_write list \<Rightarrow> fw_state \<Rightarrow> outcome" where
  "firmware_main c K n env s = dispatch_loop c K n env (boot c s)"

subsection \<open>Reading runs\<close>

text \<open>The state a wait loop or the first half of the body ends in, whatever the result.\<close>

definition poll_state :: "fw_state + (env_write list \<times> fw_state) \<Rightarrow> fw_state" where
  "poll_state r = (case r of Inl s \<Rightarrow> s | Inr (env, s) \<Rightarrow> s)"

fun launched_state :: "launched \<Rightarrow> fw_state" where
  "launched_state (Launch_out_of_bounds s) = s"
| "launched_state (Kernel_running s) = s"
| "launched_state (Kernel_returned rd s) = s"

text \<open>A pass is finished when the body ran to its end.\<close>

fun finished :: "outcome \<Rightarrow> bool" where
  "finished (Loop_head env s) = True"
| "finished (Heartbeat_forever s) = True"
| "finished _ = False"

text \<open>The kernel calls in a history, and the number of NOC atomic increments in it.\<close>

fun is_kernel_call :: "fw_event \<Rightarrow> bool" where
  "is_kernel_call (Kernel_call a b) = True"
| "is_kernel_call _ = False"

definition kernel_calls :: "fw_event list \<Rightarrow> fw_event list" where
  "kernel_calls tr = filter is_kernel_call tr"

fun is_atomic_increment :: "fw_event \<Rightarrow> bool" where
  "is_atomic_increment (Noc_fast_atomic_increment n b a v i w l) = True"
| "is_atomic_increment _ = False"

definition atomic_increments :: "fw_event list \<Rightarrow> nat" where
  "atomic_increments tr = length (filter is_atomic_increment tr)"

text \<open>
  The read pointer is in step with the increments sent: it is their number modulo
  \<open>2 ^ j\<close>.
\<close>

definition rd_ptr_in_step :: "nat \<Rightarrow> fw_state \<Rightarrow> bool" where
  "rd_ptr_in_step j s \<longleftrightarrow>
     unat (launch_msg_rd_ptr (mailboxes s)) = atomic_increments (trace s) mod 2 ^ j"

text \<open>
  A monitor that reads a history from left to right and remembers what the firmware last
  saw of the slaves. A read of \<^verbatim>\<open>slave_sync.all\<close> that returns
  \<^verbatim>\<open>RUN_SYNC_MSG_ALL_SLAVES_DONE\<close> gives \<open>Slaves_done\<close>; any other read of it, a poll
  of the go signal, the waypoint \<^verbatim>\<open>GW\<close> at the head of the loop and a kernel call give
  \<open>Slaves_unknown\<close>. Storing \<^verbatim>\<open>RUN_MSG_DONE\<close> or sending the atomic increment in any
  state but \<open>Slaves_done\<close> gives \<open>Violated\<close>, which stays.
\<close>

datatype sync_obs = Violated | Slaves_unknown | Slaves_done

definition sync_step :: "dev_consts \<Rightarrow> sync_obs \<Rightarrow> fw_event \<Rightarrow> sync_obs" where
  "sync_step c m e =
     (if m = Violated then Violated
      else case e of
        Read_slave_sync v \<Rightarrow>
          if v = RUN_SYNC_MSG_ALL_SLAVES_DONE c then Slaves_done else Slaves_unknown
      | Write_go_signal v \<Rightarrow>
          if v = RUN_MSG_DONE c then (if m = Slaves_done then Slaves_done else Violated) else m
      | Noc_fast_atomic_increment n b a vc i w l \<Rightarrow>
          if m = Slaves_done then Slaves_done else Violated
      | WAYPOINT w \<Rightarrow> if w = ''GW'' then Slaves_unknown else m
      | Kernel_call a b \<Rightarrow> Slaves_unknown
      | Read_go_signal v \<Rightarrow> Slaves_unknown)"

definition sync_after :: "dev_consts \<Rightarrow> fw_event list \<Rightarrow> sync_obs" where
  "sync_after c tr = foldl (sync_step c) Slaves_unknown tr"

definition done_only_after_sync :: "dev_consts \<Rightarrow> fw_event list \<Rightarrow> bool" where
  "done_only_after_sync c tr \<longleftrightarrow> sync_after c tr \<noteq> Violated"

text \<open>Events that neither store the go signal nor send an increment.\<close>

fun silent :: "fw_event \<Rightarrow> bool" where
  "silent (Write_go_signal v) = False"
| "silent (Noc_fast_atomic_increment n b a vc i w l) = False"
| "silent _ = True"

subsection \<open>An instance to run the firmware on\<close>

text \<open>
  One choice of the parameters: four launch entries, the go and done tokens \<open>0x80\<close> and
  \<open>0\<close>, \<^verbatim>\<open>DISPATCH_MODE_DEV\<close> as \<open>0\<close>, identity coordinate translation and a NOC
  address with the local address in bits 0 to 31, x from bit 32 and y from bit 38. The
  mailbox page has four copies of one launch message, the go message names the
  dispatcher at \<open>(1, 2)\<close>, and the kernel returns without touching the page. The script
  lets the dispatcher store the go message before the first poll and leaves the slaves
  done.
\<close>

definition sample_consts :: dev_consts where
  "sample_consts =
     \<lparr>ARCH_BLACKHOLE = True,
      NUM_CIRCULAR_BUFFERS = 32,
      RUN_MSG_GO = 0x80,
      RUN_MSG_DONE = 0,
      RUN_SYNC_MSG_GO = 0x80,
      RUN_SYNC_MSG_ALL_SLAVES_DONE = 0,
      DISPATCH_MODE_DEV = 0,
      DISPATCH_CLASS_MASK_ETH_DM0 = 1,
      DISPATCH_CLASS_MASK_ETH_DM1 = 2,
      EthProcessorTypes_DM0 = 0,
      DISPATCH_MESSAGE_ADDR = 0x1000,
      launch_msg_buffer_num_entries = 4,
      NCRISC_AT_CMD_BUF = 3,
      NOC_UNICAST_WRITE_VC = 1,
      NOC_XY_ADDR = (\<lambda>x y addr. push_bit 38 (ucast y) OR push_bit 32 (ucast x) OR ucast addr),
      NOC_X = (\<lambda>noc x. ucast x),
      NOC_Y = (\<lambda>noc y. ucast y),
      get_cb_tiles_received_ptr = (\<lambda>operand. 0xFFB40000 + 8 * operand),
      get_cb_tiles_acked_ptr = (\<lambda>operand. 0xFFB40004 + 8 * operand),
      firmware_config_init = (\<lambda>mb. 0x2000),
      slave_sync_set_dm1 = (\<lambda>v w. (w AND NOT 0xFF) OR ucast v)\<rparr>"

definition sample_launch_msg :: "u8 \<Rightarrow> u8 \<Rightarrow> launch_msg_t" where
  "sample_launch_msg en md =
     \<lparr>kernel_config =
        \<lparr>enables = en, brisc_noc_id = 0, cb_offset = 0, kernel_text_offset = [0x40, 0x80],
         mode = md, host_assigned_id = 7\<rparr>\<rparr>"

definition sample_go :: "u8 \<Rightarrow> go_msg_t" where
  "sample_go sig = \<lparr>dispatch_message_offset = 0, master_x = 1, master_y = 2, signal = sig\<rparr>"

definition sample_state :: "u8 \<Rightarrow> fw_state" where
  "sample_state md =
     \<lparr>mailboxes =
        \<lparr>launch = replicate 4 (sample_launch_msg 1 md), launch_msg_rd_ptr = 0,
         go_message = sample_go 0, slave_sync_all = 0\<rparr>,
      noc_index = 0, heartbeat = 0, regs = (\<lambda>a. 5), trace = []\<rparr>"

definition sample_kernel :: kernel where
  "sample_kernel a arg mb = Some mb"

definition sample_env :: "env_write list" where
  "sample_env = [Write_go_message (sample_go 0x80), No_write]"

lemmas sample_defs = sample_consts_def sample_launch_msg_def sample_go_def sample_state_def
  sample_kernel_def sample_env_def

lemmas fw_defs = firmware_main_def boot_def dispatch_iteration_def notify_dispatcher_def
  run_launch_def wait_slave_eriscs_def run_slave_eriscs_def init_sync_registers_def
  launch_at_def emit_def RISC_POST_HEARTBEAT_def dispatch_addr_def Let_def

section \<open>Properties of the host side\<close>

lemma fits_take_bit:
  fixes x :: u32
  assumes "unat x < 2 ^ b"
  shows "take_bit b x = x"
  using assms by (metis take_bit_nat_eq_self_iff unsigned_take_bit_eq word_unat_eq_iff)

lemma multicast_fields_encoding:
  assumes b: "4 * b \<le> 32"
    and f: "take_bit b xs = xs" "take_bit b ys = ys" "take_bit b xe = xe" "take_bit b ye = ye"
  shows "multicast_fields b (NOC_MULTICAST_ENCODING b xs ys xe ye) = (xs, ys, xe, ye)"
proof -
  have above: "\<not> bit x n" if "take_bit b x = (x::u32)" "b \<le> n" for x n
    using that by (metis bit_take_bit_iff not_le)
  have below: "n < b" if "take_bit b x = (x::u32)" "bit x n" for x n
    using that by (metis bit_take_bit_iff)
  note hi = above[OF f(1)] above[OF f(2)] above[OF f(3)] above[OF f(4)]
  note lo = below[OF f(1)] below[OF f(2)] below[OF f(3)] below[OF f(4)]
  have 1: "multicast_field b 2 (NOC_MULTICAST_ENCODING b xs ys xe ye) = xs"
    unfolding NOC_MULTICAST_ENCODING_def multicast_field_def
    by (rule bit_word_eqI) (use b in \<open>auto simp: bit_simps hi dest: lo\<close>)
  have 2: "multicast_field b 3 (NOC_MULTICAST_ENCODING b xs ys xe ye) = ys"
    unfolding NOC_MULTICAST_ENCODING_def multicast_field_def
    by (rule bit_word_eqI) (use b in \<open>auto simp: bit_simps hi dest: lo\<close>)
  have 3: "multicast_field b 0 (NOC_MULTICAST_ENCODING b xs ys xe ye) = xe"
    unfolding NOC_MULTICAST_ENCODING_def multicast_field_def
    by (rule bit_word_eqI) (use b in \<open>auto simp: bit_simps hi dest: lo\<close>)
  have 4: "multicast_field b 1 (NOC_MULTICAST_ENCODING b xs ys xe ye) = ye"
    unfolding NOC_MULTICAST_ENCODING_def multicast_field_def
    by (rule bit_word_eqI) (use b in \<open>auto simp: bit_simps hi dest: lo\<close>)
  show ?thesis
    by (simp only: multicast_fields_def 1 2 3 4)
qed

text \<open>
  Claim C7. When four \<open>B\<close>-bit fields fit in the 32-bit word (\<open>4 * B \<le> 32\<close>) and each
  coordinate is below \<open>2 ^ B\<close>, the four coordinates are read back from the encoded word,
  each from its own field; hence two encodings are equal only if the coordinates are.
\<close>

theorem NOC_MULTICAST_ENCODING_injective:
  assumes "4 * b \<le> 32"
    and "unat x_start < 2 ^ b" "unat y_start < 2 ^ b" "unat x_end < 2 ^ b" "unat y_end < 2 ^ b"
  shows "multicast_fields b (NOC_MULTICAST_ENCODING b x_start y_start x_end y_end)
           = (x_start, y_start, x_end, y_end)
         \<and> (\<forall>x_start' y_start' x_end' y_end'.
               unat x_start' < 2 ^ b \<and> unat y_start' < 2 ^ b \<and>
               unat x_end' < 2 ^ b \<and> unat y_end' < 2 ^ b \<and>
               NOC_MULTICAST_ENCODING b x_start' y_start' x_end' y_end'
                 = NOC_MULTICAST_ENCODING b x_start y_start x_end y_end
               \<longrightarrow> (x_start', y_start', x_end', y_end') = (x_start, y_start, x_end, y_end))"
proof (intro conjI allI impI)
  show rt: "multicast_fields b (NOC_MULTICAST_ENCODING b x_start y_start x_end y_end)
           = (x_start, y_start, x_end, y_end)"
    using assms by (intro multicast_fields_encoding fits_take_bit)
  fix x_start' y_start' x_end' y_end' :: u32
  assume h: "unat x_start' < 2 ^ b \<and> unat y_start' < 2 ^ b \<and>
             unat x_end' < 2 ^ b \<and> unat y_end' < 2 ^ b \<and>
             NOC_MULTICAST_ENCODING b x_start' y_start' x_end' y_end'
               = NOC_MULTICAST_ENCODING b x_start y_start x_end y_end"
  then have bounds: "unat x_start' < 2 ^ b" "unat y_start' < 2 ^ b"
    "unat x_end' < 2 ^ b" "unat y_end' < 2 ^ b"
    and eq: "NOC_MULTICAST_ENCODING b x_start' y_start' x_end' y_end'
             = NOC_MULTICAST_ENCODING b x_start y_start x_end y_end"
    by blast+
  have rt': "multicast_fields b (NOC_MULTICAST_ENCODING b x_start' y_start' x_end' y_end')
           = (x_start', y_start', x_end', y_end')"
    using assms(1) bounds by (intro multicast_fields_encoding fits_take_bit)
  show "(x_start', y_start', x_end', y_end') = (x_start, y_start, x_end, y_end)"
    using rt' [unfolded eq] rt by (rule trans [OF sym])
qed

theorem NOC_MULTICAST_ENCODING_injective_witness:
  "(4 * (6::nat) \<le> 32 \<and> unat (1::u32) < 2 ^ 6 \<and> unat (2::u32) < 2 ^ 6
      \<and> unat (3::u32) < 2 ^ 6 \<and> unat (4::u32) < 2 ^ 6)
   \<and> multicast_fields 6 (NOC_MULTICAST_ENCODING 6 1 2 3 4) = (1, 2, 3, 4)
   \<and> NOC_MULTICAST_ENCODING 6 4 3 2 1 \<noteq> NOC_MULTICAST_ENCODING 6 1 2 3 4"
proof -
  have b: "4 * (6::nat) \<le> 32" by simp
  have x: "unat (1::u32) < 2 ^ 6" "unat (2::u32) < 2 ^ 6" "unat (3::u32) < 2 ^ 6"
    "unat (4::u32) < 2 ^ 6"
    by simp_all
  have "((4, 3, 2, 1) :: u32 \<times> u32 \<times> u32 \<times> u32) \<noteq> (1, 2, 3, 4)"
    by simp
  with NOC_MULTICAST_ENCODING_injective [OF b x(1) x(2) x(3) x(4)] b x
  show ?thesis
    by blast
qed

text \<open>
  Claim C10. \<^verbatim>\<open>transfer_type_to_string\<close> returns "B", "NC", "T0", "T1", "T2" for the five
  RISC-V transfer types and throws "Invalid riscv type" for every other value of the
  enumeration type, the enumerators CB and SEM included.
\<close>

theorem transfer_type_to_string_cases:
  "transfer_type_to_string TransferType_B = Inr ''B''
   \<and> transfer_type_to_string TransferType_N = Inr ''NC''
   \<and> transfer_type_to_string TransferType_T0 = Inr ''T0''
   \<and> transfer_type_to_string TransferType_T1 = Inr ''T1''
   \<and> transfer_type_to_string TransferType_T2 = Inr ''T2''
   \<and> transfer_type_to_string TransferType_CB = Inl (TT_THROW ''Invalid riscv type'')
   \<and> transfer_type_to_string TransferType_SEM = Inl (TT_THROW ''Invalid riscv type'')
   \<and> (\<forall>t. t \<notin> {TransferType_B, TransferType_N, TransferType_T0, TransferType_T1,
                 TransferType_T2}
          \<longrightarrow> transfer_type_to_string t = Inl (TT_THROW ''Invalid riscv type''))"
  by (simp add: transfer_type_to_string_def TransferType_B_def TransferType_N_def
      TransferType_T0_def TransferType_T1_def TransferType_T2_def TransferType_CB_def
      TransferType_SEM_def)

theorem transfer_type_to_string_cases_witness:
  "(200 :: TransferType)
      \<notin> {TransferType_B, TransferType_N, TransferType_T0, TransferType_T1, TransferType_T2}
   \<and> transfer_type_to_string 200 = Inl (TT_THROW ''Invalid riscv type'')"
proof -
  have h: "(200 :: TransferType)
      \<notin> {TransferType_B, TransferType_N, TransferType_T0, TransferType_T1, TransferType_T2}"
    by (simp add: TransferType_B_def TransferType_N_def TransferType_T0_def
        TransferType_T1_def TransferType_T2_def)
  with transfer_type_to_string_cases show ?thesis
    by blast
qed

section \<open>Properties of the firmware\<close>

subsection \<open>What each step leaves alone\<close>

lemma poll_state_simps [simp]:
  "poll_state (Inl s) = s" "poll_state (Inr (env, s)) = s"
  by (simp_all add: poll_state_def)

lemma emit_fields [simp]:
  "trace (emit e s) = trace s @ [e]"
  "mailboxes (emit e s) = mailboxes s"
  "regs (emit e s) = regs s"
  "noc_index (emit e s) = noc_index s"
  by (simp_all add: emit_def)

lemma heartbeat_fields [simp]:
  "trace (RISC_POST_HEARTBEAT s) = trace s"
  "mailboxes (RISC_POST_HEARTBEAT s) = mailboxes s"
  "regs (RISC_POST_HEARTBEAT s) = regs s"
  "noc_index (RISC_POST_HEARTBEAT s) = noc_index s"
  by (simp_all add: RISC_POST_HEARTBEAT_def)

lemma env_apply_fields [simp]:
  "trace (env_apply w s) = trace s"
  "regs (env_apply w s) = regs s"
  "noc_index (env_apply w s) = noc_index s"
  "launch_msg_rd_ptr (mailboxes (env_apply w s)) = launch_msg_rd_ptr (mailboxes s)"
  by (cases w; simp)+

lemma init_sync_fields [simp]:
  "trace (init_sync_registers c s) = trace s"
  "mailboxes (init_sync_registers c s) = mailboxes s"
  "noc_index (init_sync_registers c s) = noc_index s"
  by (simp_all add: init_sync_registers_def)

lemma run_slave_fields [simp]:
  "trace (run_slave_eriscs c en s) = trace s"
  "regs (run_slave_eriscs c en s) = regs s"
  "noc_index (run_slave_eriscs c en s) = noc_index s"
  "launch_msg_rd_ptr (mailboxes (run_slave_eriscs c en s)) = launch_msg_rd_ptr (mailboxes s)"
  "launch (mailboxes (run_slave_eriscs c en s)) = launch (mailboxes s)"
  "go_message (mailboxes (run_slave_eriscs c en s)) = go_message (mailboxes s)"
  by (simp_all add: run_slave_eriscs_def)

lemma run_slave_mailboxes [simp]:
  "mailboxes (run_slave_eriscs c en (s\<lparr>noc_index := n\<rparr>)) = mailboxes (run_slave_eriscs c en s)"
  "mailboxes (run_slave_eriscs c en (emit e s)) = mailboxes (run_slave_eriscs c en s)"
  by (simp_all add: run_slave_eriscs_def)

lemma launch_at_run_slave [simp]:
  "launch_at (mailboxes (run_slave_eriscs c en s)) i = launch_at (mailboxes s) i"
  by (simp add: launch_at_def)

subsection \<open>The wait loops\<close>

lemma poll_go_frame:
  "regs (poll_state (poll_go_signal c env s)) = regs s
   \<and> noc_index (poll_state (poll_go_signal c env s)) = noc_index s
   \<and> launch_msg_rd_ptr (mailboxes (poll_state (poll_go_signal c env s)))
       = launch_msg_rd_ptr (mailboxes s)"
  by (induction env arbitrary: s) (simp_all add: Let_def)

lemma poll_go_trace:
  "\<exists>vs. trace (poll_state (poll_go_signal c env s)) = trace s @ map Read_go_signal vs"
proof (induction env arbitrary: s)
  case Nil
  show ?case by simp
next
  case (Cons w env)
  let ?v = "signal (go_message (mailboxes (env_apply w s)))"
  show ?case
  proof (cases "?v \<noteq> RUN_MSG_GO c")
    case True
    from Cons.IH [of "RISC_POST_HEARTBEAT (emit (Read_go_signal ?v) (env_apply w s))"]
    obtain vs where "trace (poll_state (poll_go_signal c (w # env) s))
        = trace s @ map Read_go_signal (?v # vs)"
      using True by (auto simp: Let_def)
    then show ?thesis by blast
  next
    case False
    then have "trace (poll_state (poll_go_signal c (w # env) s))
        = trace s @ map Read_go_signal [?v]"
      by (simp add: Let_def)
    then show ?thesis by blast
  qed
qed

lemma poll_slave_frame:
  "regs (poll_state (poll_slave_sync c env s)) = regs s
   \<and> noc_index (poll_state (poll_slave_sync c env s)) = noc_index s
   \<and> launch_msg_rd_ptr (mailboxes (poll_state (poll_slave_sync c env s)))
       = launch_msg_rd_ptr (mailboxes s)"
  by (induction env arbitrary: s) (simp_all add: Let_def)

lemma poll_slave_spinning:
  "poll_slave_sync c env s = Inl s' \<Longrightarrow>
   \<exists>vs. trace s' = trace s @ map Read_slave_sync vs
         \<and> RUN_SYNC_MSG_ALL_SLAVES_DONE c \<notin> set vs"
proof (induction env arbitrary: s)
  case Nil
  then show ?case by simp
next
  case (Cons w env)
  let ?v = "slave_sync_all (mailboxes (env_apply w s))"
  from Cons.prems have ne: "?v \<noteq> RUN_SYNC_MSG_ALL_SLAVES_DONE c"
    and rec: "poll_slave_sync c env (RISC_POST_HEARTBEAT (emit (Read_slave_sync ?v) (env_apply w s)))
                = Inl s'"
    by (auto simp: Let_def split: if_splits)
  from Cons.IH [OF rec] obtain vs where
    "trace s' = trace s @ map Read_slave_sync (?v # vs)"
    "RUN_SYNC_MSG_ALL_SLAVES_DONE c \<notin> set (?v # vs)"
    using ne by auto
  then show ?case by blast
qed

lemma poll_slave_done:
  "poll_slave_sync c env s = Inr (env', s') \<Longrightarrow>
   \<exists>vs. trace s' = trace s @ map Read_slave_sync vs
                      @ [Read_slave_sync (RUN_SYNC_MSG_ALL_SLAVES_DONE c)]
         \<and> RUN_SYNC_MSG_ALL_SLAVES_DONE c \<notin> set vs"
proof (induction env arbitrary: s)
  case Nil
  then show ?case by simp
next
  case (Cons w env)
  let ?v = "slave_sync_all (mailboxes (env_apply w s))"
  show ?case
  proof (cases "?v \<noteq> RUN_SYNC_MSG_ALL_SLAVES_DONE c")
    case True
    with Cons.prems have
      rec: "poll_slave_sync c env (RISC_POST_HEARTBEAT (emit (Read_slave_sync ?v) (env_apply w s)))
                = Inr (env', s')"
      by (simp add: Let_def)
    from Cons.IH [OF rec] obtain vs where
      "trace s' = trace s @ map Read_slave_sync (?v # vs)
                    @ [Read_slave_sync (RUN_SYNC_MSG_ALL_SLAVES_DONE c)]"
      "RUN_SYNC_MSG_ALL_SLAVES_DONE c \<notin> set (?v # vs)"
      using True by auto
    then show ?thesis by blast
  next
    case False
    with Cons.prems have
      "trace s' = trace s @ map Read_slave_sync []
                    @ [Read_slave_sync (RUN_SYNC_MSG_ALL_SLAVES_DONE c)]"
      by (auto simp: Let_def)
    then show ?thesis by (metis empty_iff list.set(1))
  qed
qed

lemma poll_slave_seen:
  "poll_slave_sync c env s = Inr (env', s') \<Longrightarrow>
   slave_sync_all (mailboxes s') = RUN_SYNC_MSG_ALL_SLAVES_DONE c"
  by (induction env arbitrary: s) (auto simp: Let_def split: if_splits)

lemma wait_slave_frame:
  "regs (poll_state (wait_slave_eriscs c env s)) = regs s
   \<and> noc_index (poll_state (wait_slave_eriscs c env s)) = noc_index s
   \<and> launch_msg_rd_ptr (mailboxes (poll_state (wait_slave_eriscs c env s)))
       = launch_msg_rd_ptr (mailboxes s)"
  using poll_slave_frame [of c env "emit (WAYPOINT ''SEW'') s"]
  by (auto simp: wait_slave_eriscs_def split: sum.splits)

lemma wait_slave_spinning:
  assumes "wait_slave_eriscs c env s = Inl s'"
  shows "\<exists>vs. trace s' = trace s @ WAYPOINT ''SEW'' # map Read_slave_sync vs
              \<and> RUN_SYNC_MSG_ALL_SLAVES_DONE c \<notin> set vs"
proof -
  from assms have "poll_slave_sync c env (emit (WAYPOINT ''SEW'') s) = Inl s'"
    by (auto simp: wait_slave_eriscs_def split: sum.splits)
  from poll_slave_spinning [OF this] show ?thesis
    by auto
qed

lemma wait_slave_done:
  assumes "wait_slave_eriscs c env s = Inr (env', s')"
  shows "\<exists>vs. trace s' = trace s @ WAYPOINT ''SEW'' # map Read_slave_sync vs
                  @ [Read_slave_sync (RUN_SYNC_MSG_ALL_SLAVES_DONE c), WAYPOINT ''SED'']
              \<and> RUN_SYNC_MSG_ALL_SLAVES_DONE c \<notin> set vs"
    and "slave_sync_all (mailboxes s') = RUN_SYNC_MSG_ALL_SLAVES_DONE c"
proof -
  from assms obtain s1 where
    p: "poll_slave_sync c env (emit (WAYPOINT ''SEW'') s) = Inr (env', s1)"
    and s': "s' = emit (WAYPOINT ''SED'') s1"
    by (auto simp: wait_slave_eriscs_def split: sum.splits)
  from poll_slave_done [OF p] s'
  show "\<exists>vs. trace s' = trace s @ WAYPOINT ''SEW'' # map Read_slave_sync vs
                  @ [Read_slave_sync (RUN_SYNC_MSG_ALL_SLAVES_DONE c), WAYPOINT ''SED'']
              \<and> RUN_SYNC_MSG_ALL_SLAVES_DONE c \<notin> set vs"
    by auto
  from poll_slave_seen [OF p] s'
  show "slave_sync_all (mailboxes s') = RUN_SYNC_MSG_ALL_SLAVES_DONE c"
    by simp
qed

subsection \<open>Kernel calls and increments of each step\<close>

lemma atomic_increments_simps [simp]:
  "atomic_increments [] = 0"
  "atomic_increments (tr @ tr') = atomic_increments tr + atomic_increments tr'"
  "atomic_increments (e # tr) = (if is_atomic_increment e then 1 else 0) + atomic_increments tr"
  "atomic_increments (map Read_go_signal vs) = 0"
  "atomic_increments (map Read_slave_sync ws) = 0"
  by (simp_all add: atomic_increments_def filter_map o_def)

lemma kernel_calls_simps [simp]:
  "kernel_calls [] = []"
  "kernel_calls (tr @ tr') = kernel_calls tr @ kernel_calls tr'"
  "kernel_calls (e # tr) = (if is_kernel_call e then [e] else []) @ kernel_calls tr"
  "kernel_calls (map Read_go_signal vs) = []"
  "kernel_calls (map Read_slave_sync ws) = []"
  by (simp_all add: kernel_calls_def filter_map o_def)

lemma poll_go_quiet:
  "atomic_increments (trace (poll_state (poll_go_signal c env s))) = atomic_increments (trace s)
   \<and> kernel_calls (trace (poll_state (poll_go_signal c env s))) = kernel_calls (trace s)"
  using poll_go_trace [of c env s] by auto

lemma wait_slave_quiet:
  "atomic_increments (trace (poll_state (wait_slave_eriscs c env s))) = atomic_increments (trace s)
   \<and> kernel_calls (trace (poll_state (wait_slave_eriscs c env s))) = kernel_calls (trace s)"
proof (cases "wait_slave_eriscs c env s")
  case (Inl s3)
  from wait_slave_spinning [OF Inl] show ?thesis
    using Inl by auto
next
  case (Inr q)
  then obtain env2 s3 where q: "wait_slave_eriscs c env s = Inr (env2, s3)"
    by (cases q) simp
  from wait_slave_done(1) [OF q] show ?thesis
    using q by auto
qed

lemma run_launch_increments:
  "atomic_increments (trace (launched_state (run_launch c K s))) = atomic_increments (trace s)"
  by (simp add: run_launch_def Let_def split: option.splits)

lemma run_launch_rd_ptr:
  assumes "\<forall>a b m m'. K a b m = Some m' \<longrightarrow> launch_msg_rd_ptr m' = launch_msg_rd_ptr m"
  shows "launch_msg_rd_ptr (mailboxes (launched_state (run_launch c K s)))
           = launch_msg_rd_ptr (mailboxes s)"
  using assms by (auto simp: run_launch_def Let_def split: option.splits)

lemma run_launch_local_rd:
  "run_launch c K s = Kernel_returned rd s' \<Longrightarrow> rd = launch_msg_rd_ptr (mailboxes s)"
  by (auto simp: run_launch_def Let_def split: option.splits if_splits)

lemma run_launch_kernel_calls:
  assumes msg: "launch_at (mailboxes s) (launch_msg_rd_ptr (mailboxes s)) = Some m"
    and idx: "ucast (enables (kernel_config m)) AND DISPATCH_CLASS_MASK_ETH_DM0 c \<noteq> 0
              \<longrightarrow> EthProcessorTypes_DM0 c < length (kernel_text_offset (kernel_config m))"
  shows "kernel_calls (trace (launched_state (run_launch c K s)))
           = kernel_calls (trace s)
             @ (if ucast (enables (kernel_config m)) AND DISPATCH_CLASS_MASK_ETH_DM0 c \<noteq> 0
                then [Kernel_call
                        (firmware_config_init c
                           (mailboxes (run_slave_eriscs c (enables (kernel_config m)) s))
                         + kernel_text_offset (kernel_config m) ! EthProcessorTypes_DM0 c)
                        (firmware_config_init c
                           (mailboxes (run_slave_eriscs c (enables (kernel_config m)) s))
                         + kernel_text_offset (kernel_config m) ! EthProcessorTypes_DM0 c)]
                else [])"
  using assms
  by (auto simp: run_launch_def Let_def split: option.splits)

lemma notify_result:
  assumes "launch_at (mailboxes s) rd = Some m"
  shows "\<exists>s'. notify_dispatcher c rd s = Some s'
      \<and> signal (go_message (mailboxes s')) = RUN_MSG_DONE c
      \<and> atomic_increments (trace s') = atomic_increments (trace s)
           + (if mode (kernel_config m) = DISPATCH_MODE_DEV c then 1 else 0)
      \<and> kernel_calls (trace s') = kernel_calls (trace s)"
  using assms by (auto simp: notify_dispatcher_def launch_at_def Let_def split: if_splits)

lemma notify_kernel_calls:
  "notify_dispatcher c rd s = Some s' \<Longrightarrow> kernel_calls (trace s') = kernel_calls (trace s)"
  by (auto simp: notify_dispatcher_def Let_def split: option.splits if_splits)

subsection \<open>Boot\<close>

text \<open>
  Claim C9. When the first pass of the loop starts to wait for the go signal (after boot,
  \<^verbatim>\<open>init_sync_registers\<close> and the waypoint), the mailbox page has
  \<^verbatim>\<open>slave_sync.all == RUN_SYNC_MSG_ALL_SLAVES_DONE\<close>,
  \<^verbatim>\<open>go_message.signal == RUN_MSG_DONE\<close> and \<^verbatim>\<open>launch_msg_rd_ptr == 0\<close>.
\<close>

theorem boot_mailbox_state:
  "slave_sync_all (mailboxes (emit (WAYPOINT ''GW'') (init_sync_registers c (boot c s))))
     = RUN_SYNC_MSG_ALL_SLAVES_DONE c
   \<and> signal (go_message (mailboxes (emit (WAYPOINT ''GW'') (init_sync_registers c (boot c s)))))
     = RUN_MSG_DONE c
   \<and> launch_msg_rd_ptr (mailboxes (emit (WAYPOINT ''GW'') (init_sync_registers c (boot c s))))
     = 0"
  by (simp add: boot_def Let_def)

subsection \<open>The sync registers\<close>

lemma fold_clear:
  "operand < n \<Longrightarrow>
   fold (\<lambda>operand r. (r(f (of_nat operand :: u32) := 0::u32))(g (of_nat operand) := 0)) [0 ..< n] r
     (f (of_nat operand)) = 0
   \<and> fold (\<lambda>operand r. (r(f (of_nat operand :: u32) := 0::u32))(g (of_nat operand) := 0)) [0 ..< n] r
     (g (of_nat operand)) = 0"
proof (induction n)
  case 0
  then show ?case by simp
next
  case (Suc n)
  then show ?case
    by (cases "operand = n") (auto simp: fun_upd_def)
qed

text \<open>
  Claim C5. \<^verbatim>\<open>init_sync_registers\<close>, the first statement of every pass, leaves 0 in the
  tiles-received and the tiles-acked register of every operand below
  \<^verbatim>\<open>NUM_CIRCULAR_BUFFERS\<close>; and when the go signal is then seen, that is, when a launch
  begins, both registers of every such operand still read 0.
\<close>

theorem init_sync_registers_clears_counters:
  "(\<forall>operand < unat (NUM_CIRCULAR_BUFFERS c).
       regs (init_sync_registers c s) (get_cb_tiles_received_ptr c (of_nat operand)) = 0
     \<and> regs (init_sync_registers c s) (get_cb_tiles_acked_ptr c (of_nat operand)) = 0)
   \<and> (\<forall>env env1 s1.
         poll_go_signal c env (emit (WAYPOINT ''GW'') (init_sync_registers c s)) = Inr (env1, s1)
         \<longrightarrow> (\<forall>operand < unat (NUM_CIRCULAR_BUFFERS c).
                 regs s1 (get_cb_tiles_received_ptr c (of_nat operand)) = 0
               \<and> regs s1 (get_cb_tiles_acked_ptr c (of_nat operand)) = 0))"
proof -
  have init: "regs (init_sync_registers c s) (get_cb_tiles_received_ptr c (of_nat operand)) = 0
     \<and> regs (init_sync_registers c s) (get_cb_tiles_acked_ptr c (of_nat operand)) = 0"
    if "operand < unat (NUM_CIRCULAR_BUFFERS c)" for operand
    using fold_clear [OF that, of "get_cb_tiles_received_ptr c" "get_cb_tiles_acked_ptr c" "regs s"]
    by (simp add: init_sync_registers_def)
  have "regs s1 = regs (init_sync_registers c s)"
    if "poll_go_signal c env (emit (WAYPOINT ''GW'') (init_sync_registers c s)) = Inr (env1, s1)"
    for env env1 s1
    using poll_go_frame [of c env "emit (WAYPOINT ''GW'') (init_sync_registers c s)"] that
    by simp
  with init show ?thesis
    by simp
qed

theorem init_sync_registers_clears_counters_witness:
  "(0::nat) < unat (NUM_CIRCULAR_BUFFERS sample_consts)
   \<and> regs (sample_state 0) (get_cb_tiles_received_ptr sample_consts 0) = 5
   \<and> regs (init_sync_registers sample_consts (sample_state 0))
        (get_cb_tiles_received_ptr sample_consts 0) = 0
   \<and> regs (init_sync_registers sample_consts (sample_state 0))
        (get_cb_tiles_acked_ptr sample_consts 0) = 0
   \<and> poll_go_signal sample_consts sample_env
        (emit (WAYPOINT ''GW'') (init_sync_registers sample_consts (sample_state 0)))
       = Inr ([No_write], poll_state (poll_go_signal sample_consts sample_env
               (emit (WAYPOINT ''GW'') (init_sync_registers sample_consts (sample_state 0)))))
   \<and> regs (poll_state (poll_go_signal sample_consts sample_env
               (emit (WAYPOINT ''GW'') (init_sync_registers sample_consts (sample_state 0)))))
        (get_cb_tiles_received_ptr sample_consts 0) = 0"
proof -
  let ?s0 = "emit (WAYPOINT ''GW'') (init_sync_registers sample_consts (sample_state 0))"
  have n: "(0::nat) < unat (NUM_CIRCULAR_BUFFERS sample_consts)"
    by (simp add: sample_consts_def)
  have before: "regs (sample_state 0) (get_cb_tiles_received_ptr sample_consts 0) = 5"
    by (simp add: sample_state_def)
  have go: "poll_go_signal sample_consts sample_env ?s0
              = Inr ([No_write], poll_state (poll_go_signal sample_consts sample_env ?s0))"
    by (simp add: sample_env_def sample_go_def sample_consts_def Let_def)
  note clears = init_sync_registers_clears_counters [of sample_consts "sample_state 0"]
  from clears [THEN conjunct1, rule_format, OF n]
  have a: "regs (init_sync_registers sample_consts (sample_state 0))
             (get_cb_tiles_received_ptr sample_consts 0) = 0
           \<and> regs (init_sync_registers sample_consts (sample_state 0))
               (get_cb_tiles_acked_ptr sample_consts 0) = 0"
    by simp
  from clears [THEN conjunct2, rule_format, OF go n]
  have b: "regs (poll_state (poll_go_signal sample_consts sample_env ?s0))
             (get_cb_tiles_received_ptr sample_consts 0) = 0"
    by simp
  from n before a go b show ?thesis
    by blast
qed

subsection \<open>The kernel call\<close>

text \<open>
  Claim C6. In a pass that sees the go signal, with \<open>m\<close> the launch message at the read
  pointer: if \<^verbatim>\<open>enables & DISPATCH_CLASS_MASK_ETH_DM0\<close> is not zero, the pass makes exactly
  one kernel call, to the address \<^verbatim>\<open>kernel_config_base + kernel_text_offset[DM0]\<close> (the
  base being what \<^verbatim>\<open>firmware_config_init\<close> returns after \<^verbatim>\<open>run_slave_eriscs\<close>), with
  that same address as the argument; if it is zero, the pass makes no kernel call.
\<close>

theorem dm0_kernel_call:
  assumes go: "poll_go_signal c env (emit (WAYPOINT ''GW'') (init_sync_registers c s))
                 = Inr (env1, s1)"
    and msg: "launch_at (mailboxes s1) (launch_msg_rd_ptr (mailboxes s1)) = Some m"
    and idx: "ucast (enables (kernel_config m)) AND DISPATCH_CLASS_MASK_ETH_DM0 c \<noteq> 0
              \<longrightarrow> EthProcessorTypes_DM0 c < length (kernel_text_offset (kernel_config m))"
  shows "kernel_calls (trace (outcome_state (dispatch_iteration c K env s)))
           = kernel_calls (trace s)
             @ (if ucast (enables (kernel_config m)) AND DISPATCH_CLASS_MASK_ETH_DM0 c \<noteq> 0
                then [Kernel_call
                        (firmware_config_init c
                           (mailboxes (run_slave_eriscs c (enables (kernel_config m)) s1))
                         + kernel_text_offset (kernel_config m) ! EthProcessorTypes_DM0 c)
                        (firmware_config_init c
                           (mailboxes (run_slave_eriscs c (enables (kernel_config m)) s1))
                         + kernel_text_offset (kernel_config m) ! EthProcessorTypes_DM0 c)]
                else [])"
    (is "_ = ?calls")
proof -
  let ?s1 = "emit (WAYPOINT ''GD'') s1"
  have k1: "kernel_calls (trace s1) = kernel_calls (trace s)"
    using poll_go_quiet [of c env "emit (WAYPOINT ''GW'') (init_sync_registers c s)"] go
    by simp
  have msg': "launch_at (mailboxes ?s1) (launch_msg_rd_ptr (mailboxes ?s1)) = Some m"
    using msg by simp
  have k2: "kernel_calls (trace (launched_state (run_launch c K ?s1))) = ?calls"
    using run_launch_kernel_calls [OF msg' idx, of K] k1 by simp
  show ?thesis
  proof (cases "run_launch c K ?s1")
    case (Launch_out_of_bounds s2)
    with k2 go show ?thesis by (simp add: dispatch_iteration_def)
  next
    case (Kernel_running s2)
    with k2 go show ?thesis by (simp add: dispatch_iteration_def)
  next
    case (Kernel_returned rd s2)
    with k2 have k2': "kernel_calls (trace s2) = ?calls"
      by simp
    have k3: "kernel_calls (trace (poll_state (wait_slave_eriscs c env1 s2))) = ?calls"
      using wait_slave_quiet [of c env1 s2] k2' by simp
    show ?thesis
    proof (cases "wait_slave_eriscs c env1 s2")
      case (Inl s3)
      with k3 go Kernel_returned show ?thesis
        by (simp add: dispatch_iteration_def)
    next
      case (Inr q)
      then obtain env2 s3 where q: "wait_slave_eriscs c env1 s2 = Inr (env2, s3)"
        by (cases q) simp
      with k3 have k3': "kernel_calls (trace s3) = ?calls"
        by simp
      show ?thesis
      proof (cases "notify_dispatcher c rd s3")
        case None
        with k3' go Kernel_returned q show ?thesis
          by (simp add: dispatch_iteration_def)
      next
        case (Some s4)
        with notify_kernel_calls [OF Some] k3' go Kernel_returned q show ?thesis
          by (simp add: dispatch_iteration_def)
      qed
    qed
  qed
qed

theorem dm0_kernel_call_witness:
  "ucast (enables (kernel_config (sample_launch_msg 1 0)))
       AND DISPATCH_CLASS_MASK_ETH_DM0 sample_consts \<noteq> 0
   \<and> kernel_calls (trace (outcome_state
         (dispatch_iteration sample_consts sample_kernel sample_env (sample_state 0))))
       = [Kernel_call 0x2040 0x2040]"
proof -
  let ?c = sample_consts
  let ?s0 = "emit (WAYPOINT ''GW'') (init_sync_registers ?c (sample_state 0))"
  let ?s1 = "poll_state (poll_go_signal ?c sample_env ?s0)"
  let ?m = "sample_launch_msg 1 0"
  have go: "poll_go_signal ?c sample_env ?s0 = Inr ([No_write], ?s1)"
    by (simp add: sample_defs fw_defs)
  have msg: "launch_at (mailboxes ?s1) (launch_msg_rd_ptr (mailboxes ?s1)) = Some ?m"
    by (simp add: sample_defs fw_defs)
  have dm0: "ucast (enables (kernel_config ?m)) AND DISPATCH_CLASS_MASK_ETH_DM0 ?c \<noteq> 0"
    by (simp add: sample_defs)
  have idx: "ucast (enables (kernel_config ?m)) AND DISPATCH_CLASS_MASK_ETH_DM0 ?c \<noteq> 0
              \<longrightarrow> EthProcessorTypes_DM0 ?c < length (kernel_text_offset (kernel_config ?m))"
    by (simp add: sample_defs)
  have addr: "firmware_config_init ?c
                 (mailboxes (run_slave_eriscs ?c (enables (kernel_config ?m)) ?s1))
               + kernel_text_offset (kernel_config ?m) ! EthProcessorTypes_DM0 ?c = 0x2040"
    by (simp add: sample_defs)
  have start: "kernel_calls (trace (sample_state 0)) = []"
    by (simp add: sample_defs)
  from dm0_kernel_call [OF go msg idx, of sample_kernel] dm0 addr start show ?thesis
    by simp
qed

subsection \<open>The address of the acknowledgement\<close>

text \<open>
  Claim C1. The firmware run on a go message with \<^verbatim>\<open>master_x = 1\<close> and
  \<^verbatim>\<open>master_y = 2\<close> in \<^verbatim>\<open>DISPATCH_MODE_DEV\<close>: the atomic increment it sends (wrap 31,
  the unicast-write virtual channel, not linked) goes to
  \<^verbatim>\<open>NOC_XY_ADDR(1, 1, DISPATCH_MESSAGE_ADDR)\<close>, the y coordinate being taken from
  \<^verbatim>\<open>master_x\<close>, and this is not the address \<^verbatim>\<open>NOC_XY_ADDR(1, 2, DISPATCH_MESSAGE_ADDR)\<close>
  of the core \<open>(master_x, master_y)\<close>.
\<close>

theorem dispatch_addr_takes_y_from_master_x:
  "master_x (go_message (mailboxes (outcome_state
      (firmware_main sample_consts sample_kernel 1 sample_env (sample_state 0))))) = 1
   \<and> master_y (go_message (mailboxes (outcome_state
      (firmware_main sample_consts sample_kernel 1 sample_env (sample_state 0))))) = 2
   \<and> last (trace (outcome_state
      (firmware_main sample_consts sample_kernel 1 sample_env (sample_state 0))))
     = Noc_fast_atomic_increment 0 (NCRISC_AT_CMD_BUF sample_consts)
         (NOC_XY_ADDR sample_consts 1 1 (DISPATCH_MESSAGE_ADDR sample_consts))
         (NOC_UNICAST_WRITE_VC sample_consts) 1 31 False
   \<and> NOC_XY_ADDR sample_consts 1 1 (DISPATCH_MESSAGE_ADDR sample_consts)
     \<noteq> NOC_XY_ADDR sample_consts 1 2 (DISPATCH_MESSAGE_ADDR sample_consts)"
  by (simp add: sample_defs fw_defs)


subsection \<open>The go/done handshake\<close>

text \<open>
  Claim C3, as stated, fails for a launch message whose mode is not
  \<^verbatim>\<open>DISPATCH_MODE_DEV\<close>: the pass sees the go signal, the kernel returns, the slaves are
  done, the firmware stores \<^verbatim>\<open>RUN_MSG_DONE\<close>, and it sends no atomic increment.
\<close>

theorem host_mode_launch_sends_no_increment:
  "mode (kernel_config (sample_launch_msg 1 1)) \<noteq> DISPATCH_MODE_DEV sample_consts
   \<and> finished (dispatch_iteration sample_consts sample_kernel sample_env
               (boot sample_consts (sample_state 1)))
   \<and> signal (go_message (mailboxes (outcome_state
        (dispatch_iteration sample_consts sample_kernel sample_env
           (boot sample_consts (sample_state 1))))))
       = RUN_MSG_DONE sample_consts
   \<and> atomic_increments (trace (outcome_state
        (dispatch_iteration sample_consts sample_kernel sample_env
           (boot sample_consts (sample_state 1)))))
       = 0"
  by (simp add: sample_defs fw_defs)

text \<open>
  Claim C3, amended. In a pass that sees the go signal, in which the kernel returns and the
  slaves are then seen done, the firmware finishes the body, has stored
  \<^verbatim>\<open>RUN_MSG_DONE\<close> in \<^verbatim>\<open>go_message.signal\<close>, and has sent exactly one NOC atomic
  increment if the mode of the launch message is \<^verbatim>\<open>DISPATCH_MODE_DEV\<close> and none
  otherwise.
\<close>

theorem go_done_handshake:
  assumes go: "poll_go_signal c env (emit (WAYPOINT ''GW'') (init_sync_registers c s))
                 = Inr (env1, s1)"
    and ret: "run_launch c K (emit (WAYPOINT ''GD'') s1) = Kernel_returned rd s2"
    and sl: "wait_slave_eriscs c env1 s2 = Inr (env2, s3)"
    and msg: "launch_at (mailboxes s3) rd = Some m"
  shows "finished (dispatch_iteration c K env s)
     \<and> signal (go_message (mailboxes (outcome_state (dispatch_iteration c K env s))))
         = RUN_MSG_DONE c
     \<and> atomic_increments (trace (outcome_state (dispatch_iteration c K env s)))
         = atomic_increments (trace s) + (if mode (kernel_config m) = DISPATCH_MODE_DEV c then 1 else 0)"
proof -
  have a1: "atomic_increments (trace s1) = atomic_increments (trace s)"
    using poll_go_quiet [of c env "emit (WAYPOINT ''GW'') (init_sync_registers c s)"] go
    by simp
  have a2: "atomic_increments (trace s2) = atomic_increments (trace s1)"
    using run_launch_increments [of c K "emit (WAYPOINT ''GD'') s1"] ret by simp
  have a3: "atomic_increments (trace s3) = atomic_increments (trace s2)"
    using wait_slave_quiet [of c env1 s2] sl by simp
  from notify_result [OF msg, of c] obtain s4 where
    n: "notify_dispatcher c rd s3 = Some s4"
    and sig: "signal (go_message (mailboxes s4)) = RUN_MSG_DONE c"
    and a4: "atomic_increments (trace s4) = atomic_increments (trace s3)
               + (if mode (kernel_config m) = DISPATCH_MODE_DEV c then 1 else 0)"
    by blast
  have "dispatch_iteration c K env s
          = (if ARCH_BLACKHOLE c then Loop_head env2 s4 else Heartbeat_forever s4)"
    using go ret sl n by (simp add: dispatch_iteration_def)
  with sig a1 a2 a3 a4 show ?thesis
    by simp
qed

theorem go_done_handshake_witness:
  "finished (dispatch_iteration sample_consts sample_kernel sample_env (sample_state 0))
   \<and> signal (go_message (mailboxes (outcome_state
         (dispatch_iteration sample_consts sample_kernel sample_env (sample_state 0)))))
       = RUN_MSG_DONE sample_consts
   \<and> mode (kernel_config (sample_launch_msg 1 0)) = DISPATCH_MODE_DEV sample_consts
   \<and> atomic_increments (trace (outcome_state
         (dispatch_iteration sample_consts sample_kernel sample_env (sample_state 0))))
       = 1"
proof -
  let ?c = sample_consts
  let ?s0 = "emit (WAYPOINT ''GW'') (init_sync_registers ?c (sample_state 0))"
  let ?s1 = "poll_state (poll_go_signal ?c sample_env ?s0)"
  let ?s2 = "launched_state (run_launch ?c sample_kernel (emit (WAYPOINT ''GD'') ?s1))"
  let ?s3 = "poll_state (wait_slave_eriscs ?c [No_write] ?s2)"
  have go: "poll_go_signal ?c sample_env ?s0 = Inr ([No_write], ?s1)"
    by (simp add: sample_defs fw_defs)
  have ret: "run_launch ?c sample_kernel (emit (WAYPOINT ''GD'') ?s1) = Kernel_returned 0 ?s2"
    by (simp add: sample_defs fw_defs)
  have sl: "wait_slave_eriscs ?c [No_write] ?s2 = Inr ([], ?s3)"
    by (simp add: sample_defs fw_defs)
  have msg: "launch_at (mailboxes ?s3) 0 = Some (sample_launch_msg 1 0)"
    by (simp add: sample_defs fw_defs)
  have dev: "mode (kernel_config (sample_launch_msg 1 0)) = DISPATCH_MODE_DEV ?c"
    by (simp add: sample_defs)
  have start: "atomic_increments (trace (sample_state 0)) = 0"
    by (simp add: sample_defs)
  from go_done_handshake [OF go ret sl msg] dev start show ?thesis
    by simp
qed

subsection \<open>Done only after the slaves\<close>

lemma sync_step_silent:
  "silent e \<Longrightarrow> m \<noteq> Violated \<Longrightarrow> sync_step c m e \<noteq> Violated"
  by (cases e) (auto simp: sync_step_def)

lemma foldl_sync_silent:
  "\<forall>e \<in> set es. silent e \<Longrightarrow> m \<noteq> Violated \<Longrightarrow> foldl (sync_step c) m es \<noteq> Violated"
  by (induction es arbitrary: m) (auto simp: sync_step_silent)

lemma sync_after_append:
  "sync_after c (tr @ es) = foldl (sync_step c) (sync_after c tr) es"
  by (simp add: sync_after_def)

lemma sync_after_append_silent:
  "\<forall>e \<in> set es. silent e \<Longrightarrow> sync_after c tr \<noteq> Violated
     \<Longrightarrow> sync_after c (tr @ es) \<noteq> Violated"
  by (simp add: sync_after_append foldl_sync_silent)

lemma run_launch_sync:
  "sync_after c (trace s) \<noteq> Violated
     \<Longrightarrow> sync_after c (trace (launched_state (run_launch c K s))) \<noteq> Violated"
  by (auto simp: run_launch_def Let_def sync_after_append sync_step_def split: option.splits)

lemma poll_go_sync:
  assumes "sync_after c (trace s) \<noteq> Violated"
  shows "sync_after c (trace (poll_state (poll_go_signal c env s))) \<noteq> Violated"
proof -
  from poll_go_trace [of c env s] obtain vs where
    "trace (poll_state (poll_go_signal c env s)) = trace s @ map Read_go_signal vs"
    by blast
  with assms show ?thesis
    by (simp add: sync_after_append_silent)
qed

lemma wait_slave_spinning_sync:
  assumes "sync_after c (trace s) \<noteq> Violated" "wait_slave_eriscs c env s = Inl s'"
  shows "sync_after c (trace s') \<noteq> Violated"
proof -
  from wait_slave_spinning [OF assms(2)] obtain vs where
    "trace s' = trace s @ WAYPOINT ''SEW'' # map Read_slave_sync vs"
    by blast
  with assms(1) show ?thesis
    by (simp add: sync_after_append_silent)
qed

lemma wait_slave_done_sync:
  assumes "sync_after c (trace s) \<noteq> Violated" "wait_slave_eriscs c env s = Inr (env', s')"
  shows "sync_after c (trace s') = Slaves_done"
proof -
  from wait_slave_done(1) [OF assms(2)] obtain vs where
    tr: "trace s' = (trace s @ WAYPOINT ''SEW'' # map Read_slave_sync vs)
            @ [Read_slave_sync (RUN_SYNC_MSG_ALL_SLAVES_DONE c), WAYPOINT ''SED'']"
    by auto
  have "sync_after c (trace s @ WAYPOINT ''SEW'' # map Read_slave_sync vs) \<noteq> Violated"
    using assms(1) by (intro sync_after_append_silent) auto
  then show ?thesis
    unfolding tr sync_after_append [of c "trace s @ WAYPOINT ''SEW'' # map Read_slave_sync vs"]
    by (simp add: sync_step_def)
qed

lemma notify_sync:
  assumes "sync_after c (trace s) = Slaves_done" "notify_dispatcher c rd s = Some s'"
  shows "sync_after c (trace s') \<noteq> Violated"
  using assms
  by (auto simp: notify_dispatcher_def Let_def sync_after_append sync_step_def
      split: option.splits if_splits)

lemma iteration_sync:
  assumes inv: "sync_after c (trace s) \<noteq> Violated"
  shows "sync_after c (trace (outcome_state (dispatch_iteration c K env s))) \<noteq> Violated"
proof -
  let ?s0 = "emit (WAYPOINT ''GW'') (init_sync_registers c s)"
  have i0: "sync_after c (trace ?s0) \<noteq> Violated"
    using inv by (simp add: sync_after_append sync_step_def)
  note i1 = poll_go_sync [OF i0, of env]
  show ?thesis
  proof (cases "poll_go_signal c env ?s0")
    case (Inl s1)
    with i1 show ?thesis by (simp add: dispatch_iteration_def)
  next
    case (Inr p)
    then obtain env1 s1 where p: "poll_go_signal c env ?s0 = Inr (env1, s1)"
      by (cases p) simp
    let ?s1 = "emit (WAYPOINT ''GD'') s1"
    have "sync_after c (trace ?s1) \<noteq> Violated"
      using i1 p by (simp add: sync_after_append sync_step_def)
    note i2 = run_launch_sync [OF this, of K]
    show ?thesis
    proof (cases "run_launch c K ?s1")
      case (Launch_out_of_bounds s2)
      with i2 p show ?thesis by (simp add: dispatch_iteration_def)
    next
      case (Kernel_running s2)
      with i2 p show ?thesis by (simp add: dispatch_iteration_def)
    next
      case (Kernel_returned rd s2)
      with i2 have i2': "sync_after c (trace s2) \<noteq> Violated"
        by simp
      show ?thesis
      proof (cases "wait_slave_eriscs c env1 s2")
        case (Inl s3)
        with wait_slave_spinning_sync [OF i2' Inl] p Kernel_returned show ?thesis
          by (simp add: dispatch_iteration_def)
      next
        case (Inr q)
        then obtain env2 s3 where q: "wait_slave_eriscs c env1 s2 = Inr (env2, s3)"
          by (cases q) simp
        note i3 = wait_slave_done_sync [OF i2' q]
        show ?thesis
        proof (cases "notify_dispatcher c rd s3")
          case None
          with i3 p Kernel_returned q show ?thesis
            by (simp add: dispatch_iteration_def)
        next
          case (Some s4)
          from notify_sync [OF i3 Some] p Kernel_returned q Some show ?thesis
            by (simp add: dispatch_iteration_def)
        qed
      qed
    qed
  qed
qed

lemma loop_sync:
  "sync_after c (trace s) \<noteq> Violated
     \<Longrightarrow> sync_after c (trace (outcome_state (dispatch_loop c K n env s))) \<noteq> Violated"
proof (induction n arbitrary: env s)
  case 0
  then show ?case by simp
next
  case (Suc n)
  note i = iteration_sync [OF Suc.prems, of K env]
  show ?case
  proof (cases "dispatch_iteration c K env s")
    case (Loop_head env' s')
    with i Suc.IH [of s' env'] show ?thesis by simp
  qed (use i in simp_all)
qed

text \<open>
  The monitor tells histories apart: it rejects a store of \<^verbatim>\<open>RUN_MSG_DONE\<close> with no
  read of \<^verbatim>\<open>slave_sync.all\<close> before it, one after a read of another value, and an
  increment sent after a kernel call with no new read.
\<close>

lemma monitor_rejects:
  "\<not> done_only_after_sync c [Write_go_signal (RUN_MSG_DONE c)]"
  "v \<noteq> RUN_SYNC_MSG_ALL_SLAVES_DONE c \<Longrightarrow>
     \<not> done_only_after_sync c [Read_slave_sync v, Write_go_signal (RUN_MSG_DONE c)]"
  "\<not> done_only_after_sync c
       [Read_slave_sync (RUN_SYNC_MSG_ALL_SLAVES_DONE c), Kernel_call a b,
        Noc_fast_atomic_increment n cb addr vc i w l]"
  by (simp_all add: done_only_after_sync_def sync_after_def sync_step_def)

text \<open>
  Claim C4. In every run of the loop, for any number of passes, any kernel and any script
  of writes by the other agents, wherever the firmware stands at the end: each store of
  \<^verbatim>\<open>RUN_MSG_DONE\<close> to \<^verbatim>\<open>go_message.signal\<close> and each atomic increment to the
  dispatcher comes after a read of \<^verbatim>\<open>slave_sync.all\<close> that returned
  \<^verbatim>\<open>RUN_SYNC_MSG_ALL_SLAVES_DONE\<close>, with no other read of it, no kernel call and no new
  pass in between.
\<close>

theorem done_and_ack_only_after_slaves_done:
  "done_only_after_sync c (trace (outcome_state (dispatch_loop c K n env (s\<lparr>trace := []\<rparr>))))"
  unfolding done_only_after_sync_def
  by (rule loop_sync) (simp add: sync_after_def)

subsection \<open>The read pointer\<close>

lemma mask_step:
  fixes rd :: u32
  assumes "j < 32"
  shows "unat ((rd + 1) AND (2 ^ j - 1)) = (unat rd + 1) mod 2 ^ j"
proof -
  have "(rd + 1) AND (2 ^ j - 1) = take_bit j (rd + 1)"
    by (metis take_bit_eq_mask mask_eq_exp_minus_1)
  moreover have "unat (take_bit j (rd + 1)) = unat (rd + 1) mod 2 ^ j"
    by (metis unsigned_take_bit_eq take_bit_eq_mod)
  moreover have "unat (rd + 1) = (unat rd + 1) mod 2 ^ 32"
    by (simp add: unat_word_ariths)
  moreover have "(unat rd + 1) mod 2 ^ 32 mod 2 ^ j = (unat rd + 1) mod 2 ^ j"
  proof -
    have "(2::nat) ^ j dvd 2 ^ 32"
      using assms by (intro le_imp_power_dvd) simp
    then show ?thesis
      by (rule mod_mod_cancel)
  qed
  ultimately show ?thesis
    by (simp only:)
qed

lemma notify_inv:
  assumes N: "launch_msg_buffer_num_entries c = 2 ^ j" "j < 32"
    and rd: "rd_ptr_in_step j s" "rd = launch_msg_rd_ptr (mailboxes s)"
    and n: "notify_dispatcher c rd s = Some s'"
  shows "rd_ptr_in_step j s'"
proof -
  have step: "(atomic_increments (trace s) mod 2 ^ j + 1) mod 2 ^ j = (atomic_increments (trace s) + 1) mod 2 ^ j"
    by (simp add: mod_Suc_eq)
  show ?thesis
    using n rd N step
    by (auto simp: rd_ptr_in_step_def notify_dispatcher_def Let_def mask_step
        split: option.splits if_splits)
qed

lemma iteration_inv:
  assumes N: "launch_msg_buffer_num_entries c = 2 ^ j" "j < 32"
    and K: "\<forall>a b m m'. K a b m = Some m' \<longrightarrow> launch_msg_rd_ptr m' = launch_msg_rd_ptr m"
    and inv: "rd_ptr_in_step j s"
  shows "rd_ptr_in_step j (outcome_state (dispatch_iteration c K env s))"
proof -
  let ?s0 = "emit (WAYPOINT ''GW'') (init_sync_registers c s)"
  have i0: "rd_ptr_in_step j ?s0"
    using inv by (simp add: rd_ptr_in_step_def)
  have i1: "rd_ptr_in_step j (poll_state (poll_go_signal c env ?s0))"
    using i0 poll_go_frame [of c env ?s0] poll_go_trace [of c env ?s0]
    by (auto simp: rd_ptr_in_step_def)
  show ?thesis
  proof (cases "poll_go_signal c env ?s0")
    case (Inl s1)
    with i1 show ?thesis by (simp add: dispatch_iteration_def)
  next
    case (Inr p)
    then obtain env1 s1 where p: "poll_go_signal c env ?s0 = Inr (env1, s1)"
      by (cases p) simp
    let ?s1 = "emit (WAYPOINT ''GD'') s1"
    have i1': "rd_ptr_in_step j ?s1"
      using i1 p by (simp add: rd_ptr_in_step_def)
    have i2: "rd_ptr_in_step j (launched_state (run_launch c K ?s1))"
      using i1' run_launch_increments [of c K ?s1] run_launch_rd_ptr [OF K, of c ?s1]
      by (simp add: rd_ptr_in_step_def)
    show ?thesis
    proof (cases "run_launch c K ?s1")
      case (Launch_out_of_bounds s2)
      with i2 p show ?thesis by (simp add: dispatch_iteration_def)
    next
      case (Kernel_running s2)
      with i2 p show ?thesis by (simp add: dispatch_iteration_def)
    next
      case (Kernel_returned rd s2)
      have rd: "rd = launch_msg_rd_ptr (mailboxes s2)"
        using run_launch_local_rd [OF Kernel_returned] run_launch_rd_ptr [OF K, of c ?s1]
          Kernel_returned by simp
      have i2': "rd_ptr_in_step j s2"
        using i2 Kernel_returned by simp
      have i3: "rd_ptr_in_step j (poll_state (wait_slave_eriscs c env1 s2))"
        and rd3: "launch_msg_rd_ptr (mailboxes (poll_state (wait_slave_eriscs c env1 s2))) = rd"
      proof -
        have "atomic_increments (trace (poll_state (wait_slave_eriscs c env1 s2))) = atomic_increments (trace s2)"
        proof (cases "wait_slave_eriscs c env1 s2")
          case (Inl s3)
          from wait_slave_spinning [OF Inl] show ?thesis
            using Inl by auto
        next
          case (Inr q)
          then obtain env2 s3 where q: "wait_slave_eriscs c env1 s2 = Inr (env2, s3)"
            by (cases q) simp
          from wait_slave_done(1) [OF q] show ?thesis
            using q by auto
        qed
        then show "rd_ptr_in_step j (poll_state (wait_slave_eriscs c env1 s2))"
          using i2' wait_slave_frame [of c env1 s2] by (simp add: rd_ptr_in_step_def)
        show "launch_msg_rd_ptr (mailboxes (poll_state (wait_slave_eriscs c env1 s2))) = rd"
          using rd wait_slave_frame [of c env1 s2] by simp
      qed
      show ?thesis
      proof (cases "wait_slave_eriscs c env1 s2")
        case (Inl s3)
        with i3 p Kernel_returned show ?thesis
          by (simp add: dispatch_iteration_def)
      next
        case (Inr q)
        then obtain env2 s3 where q: "wait_slave_eriscs c env1 s2 = Inr (env2, s3)"
          by (cases q) simp
        from i3 rd3 q have i3': "rd_ptr_in_step j s3" and rd3': "rd = launch_msg_rd_ptr (mailboxes s3)"
          by simp_all
        show ?thesis
        proof (cases "notify_dispatcher c rd s3")
          case None
          with i3' p Kernel_returned q show ?thesis
            by (simp add: dispatch_iteration_def)
        next
          case (Some s4)
          from notify_inv [OF N i3' rd3' Some] p Kernel_returned q Some show ?thesis
            by (simp add: dispatch_iteration_def)
        qed
      qed
    qed
  qed
qed

lemma boot_inv: "rd_ptr_in_step j (boot c s)"
  by (simp add: rd_ptr_in_step_def boot_def Let_def)

lemma loop_inv:
  assumes N: "launch_msg_buffer_num_entries c = 2 ^ j" "j < 32"
    and K: "\<forall>a b m m'. K a b m = Some m' \<longrightarrow> launch_msg_rd_ptr m' = launch_msg_rd_ptr m"
  shows "rd_ptr_in_step j s \<Longrightarrow> rd_ptr_in_step j (outcome_state (dispatch_loop c K n env s))"
proof (induction n arbitrary: env s)
  case 0
  then show ?case by simp
next
  case (Suc n)
  from iteration_inv [OF N K Suc.prems, of env]
  have i: "rd_ptr_in_step j (outcome_state (dispatch_iteration c K env s))" .
  show ?case
  proof (cases "dispatch_iteration c K env s")
    case (Loop_head env' s')
    with i Suc.IH [of s' env'] show ?thesis by simp
  qed (use i in simp_all)
qed

text \<open>
  Claim C2. Let \<^verbatim>\<open>launch_msg_buffer_num_entries\<close> be \<open>2 ^ j\<close> and let the kernel leave
  \<^verbatim>\<open>launch_msg_rd_ptr\<close> alone (the other agents do, by the writes they have). Then
  wherever the firmware stands after boot, \<^verbatim>\<open>launch_msg_rd_ptr\<close> is the number of atomic
  increments sent so far modulo \<open>2 ^ j\<close>. A launch finished in \<^verbatim>\<open>DISPATCH_MODE_DEV\<close>
  sends exactly one increment and any other none, so that number is the number \<open>k\<close> of
  launches completed in that mode; each of them moves the pointer by
  \<^verbatim>\<open>(rd + 1) & (N - 1)\<close>.
\<close>

theorem rd_ptr_counts_dev_launches:
  assumes "launch_msg_buffer_num_entries c = 2 ^ j" "j < 32"
    and "\<forall>a b m m'. K a b m = Some m' \<longrightarrow> launch_msg_rd_ptr m' = launch_msg_rd_ptr m"
  shows "unat (launch_msg_rd_ptr (mailboxes (outcome_state (firmware_main c K n env s))))
           = atomic_increments (trace (outcome_state (firmware_main c K n env s))) mod 2 ^ j"
  using loop_inv [OF assms boot_inv, of n env c s]
  by (simp add: firmware_main_def rd_ptr_in_step_def)

theorem rd_ptr_counts_dev_launches_witness:
  "launch_msg_buffer_num_entries sample_consts = 2 ^ 2 \<and> (2::nat) < 32
   \<and> atomic_increments (trace (outcome_state
        (firmware_main sample_consts sample_kernel (Suc (Suc 0)) (sample_env @ sample_env)
           (sample_state 0))))
       = 2
   \<and> unat (launch_msg_rd_ptr (mailboxes (outcome_state
        (firmware_main sample_consts sample_kernel (Suc (Suc 0)) (sample_env @ sample_env)
           (sample_state 0)))))
       = 2"
proof -
  have N: "launch_msg_buffer_num_entries sample_consts = 2 ^ 2"
    by (simp add: sample_consts_def)
  have j: "(2::nat) < 32"
    by simp
  have K: "\<forall>a b m m'. sample_kernel a b m = Some m' \<longrightarrow> launch_msg_rd_ptr m' = launch_msg_rd_ptr m"
    by (simp add: sample_kernel_def)
  have two: "atomic_increments (trace (outcome_state
        (firmware_main sample_consts sample_kernel (Suc (Suc 0)) (sample_env @ sample_env)
           (sample_state 0))))
       = 2"
    by (simp add: sample_defs fw_defs)
  from rd_ptr_counts_dev_launches
         [OF N j K, of "Suc (Suc 0)" "sample_env @ sample_env" "sample_state 0"] two
  have "unat (launch_msg_rd_ptr (mailboxes (outcome_state
        (firmware_main sample_consts sample_kernel (Suc (Suc 0)) (sample_env @ sample_env)
           (sample_state 0)))))
       = 2"
    by simp
  with N j two show ?thesis
    by blast
qed

end
